theory Spec2Isabelle
  imports Complex_Main
begin

section \<open>Runner agents and channel connectivity\<close>

text \<open>
  The members of \<^verbatim>\<open>grpc.ChannelConnectivity\<close>, the values a channel passes to the
  callback that \<^verbatim>\<open>RunnerAgent.__post_init__\<close> subscribes.
\<close>

datatype ChannelConnectivity = IDLE | CONNECTING | READY | TRANSIENT_FAILURE | SHUTDOWN

text \<open>
  \<^verbatim>\<open>RunnerAgent\<close> of \<^verbatim>\<open>server.py\<close>. The stub and the queue are objects, kept here by
  their identity; of the bound \<^verbatim>\<open>ExitStack\<close> only whether it has been closed is
  kept.
\<close>

record RunnerAgent =
  stub :: nat
  message_queue :: nat
  bound_context_closed :: bool
  channel_state_history :: "ChannelConnectivity list"

definition switch_state :: "ChannelConnectivity \<Rightarrow> RunnerAgent \<Rightarrow> RunnerAgent" where
  "switch_state connectivity_update a =
     a\<lparr>channel_state_history := channel_state_history a @ [connectivity_update]\<rparr>"

text \<open>
  \<^verbatim>\<open>self._channel_state_history[-1]\<close> raises \<^verbatim>\<open>IndexError\<close> on the empty list; the
  handler turns that into \<^verbatim>\<open>None\<close>.
\<close>

definition last_known_state :: "RunnerAgent \<Rightarrow> ChannelConnectivity option" where
  "last_known_state a =
     (case channel_state_history a of
        [] \<Rightarrow> None
      | _ # _ \<Rightarrow> Some (last (channel_state_history a)))"

definition is_accessible :: "RunnerAgent \<Rightarrow> bool" where
  "is_accessible a = (last_known_state a = Some READY)"

definition check_connectivity :: "RunnerAgent \<Rightarrow> bool" where
  "check_connectivity a = is_accessible a"

definition terminate :: "RunnerAgent \<Rightarrow> RunnerAgent" where
  "terminate a = a\<lparr>bound_context_closed := True\<rparr>"


section \<open>Status codes and exceptions\<close>

text \<open>The members of \<^verbatim>\<open>grpc.StatusCode\<close>.\<close>

datatype StatusCode =
    OK | CANCELLED | UNKNOWN | INVALID_ARGUMENT | DEADLINE_EXCEEDED | NOT_FOUND
  | ALREADY_EXISTS | PERMISSION_DENIED | RESOURCE_EXHAUSTED | FAILED_PRECONDITION
  | ABORTED | OUT_OF_RANGE | UNIMPLEMENTED | INTERNAL | UNAVAILABLE | DATA_LOSS
  | UNAUTHENTICATED

text \<open>
  The exceptions the servicer raises, catches or tests with \<^verbatim>\<open>isinstance\<close>.
  \<^verbatim>\<open>GRPCException message code\<close> is the class of \<^verbatim>\<open>server.py\<close>; \<^verbatim>\<open>RpcError code s\<close>
  is a \<^verbatim>\<open>grpc.RpcError\<close> whose \<^verbatim>\<open>code()\<close> is \<open>code\<close> and whose \<^verbatim>\<open>str\<close> is \<open>s\<close>; the
  other constructors carry the \<^verbatim>\<open>str\<close> of the exception. \<^verbatim>\<open>OtherException\<close> stands for
  every class the servicer does not distinguish.
\<close>

datatype exn =
    GRPCException string StatusCode
  | RpcError StatusCode string
  | AgentError string
  | EnvironmentCreationError string
  | ValueError string
  | TypeError string
  | CancelledError
  | AttributeError string
  | OtherException string


section \<open>Bridge manager\<close>

text \<open>
  What \<^verbatim>\<open>BridgeManager\<close> reads of a \<^verbatim>\<open>LocalPythonGRPC\<close> connection: the path of the
  primary environment and the ordered paths it inherits from.
\<close>

record LocalPythonGRPC =
  environment_path :: string
  extra_inheritance_paths :: "string list"

text \<open>
  \<^verbatim>\<open>_identify\<close> builds the tuple \<^verbatim>\<open>(environment_path, *extra_inheritance_paths)\<close>; a tuple
  of paths is compared component by component, as the list here is.
\<close>

type_synonym agent_key = "string list"

definition identify :: "LocalPythonGRPC \<Rightarrow> agent_key" where
  "identify connection =
     environment_path connection # extra_inheritance_paths connection"

text \<open>
  \<^verbatim>\<open>_agents\<close> is a \<^verbatim>\<open>defaultdict(list)\<close>: every key has a list, empty until something
  is appended. Each list is used as a stack (\<^verbatim>\<open>append\<close> and \<^verbatim>\<open>pop()\<close> at the same
  end); the model keeps the top of the stack at the head of the list. The lock
  serialises the callers and does not appear.
\<close>

record BridgeManager =
  agents :: "agent_key \<Rightarrow> RunnerAgent list"

definition MAX_GRPC_WAIT_TIMEOUT :: real where
  \<comment> \<open>the default of \<^verbatim>\<open>ISOLATE_MAX_GRPC_WAIT_TIMEOUT\<close>\<close>
  "MAX_GRPC_WAIT_TIMEOUT = 10"

text \<open>
  What the manager does to the world outside its own fields: a call of
  \<^verbatim>\<open>agent.terminate()\<close> on a popped agent, and a call of
  \<^verbatim>\<open>connection._establish_bridge(max_wait_timeout=...)\<close>.
\<close>

datatype bridge_effect =
    Terminated RunnerAgent
  | EstablishBridge LocalPythonGRPC real

text \<open>
  The \<^verbatim>\<open>while available_agents\<close> loop of \<^verbatim>\<open>_allocate_new_agent\<close>: pop a
  candidate, return it if \<^verbatim>\<open>check_connectivity()\<close> holds, terminate it otherwise.
  The result is the agent found (if any), what is left of the stack, and the
  candidates that were terminated, in the order they were popped.
\<close>

fun pop_available_agents ::
  "RunnerAgent list \<Rightarrow> RunnerAgent option \<times> RunnerAgent list \<times> RunnerAgent list" where
  "pop_available_agents [] = (None, [], [])"
| "pop_available_agents (agent # available_agents) =
     (if check_connectivity agent then (Some agent, available_agents, [])
      else (case pop_available_agents available_agents of
              (found, rest, dead) \<Rightarrow> (found, rest, agent # dead)))"

text \<open>
  \<^verbatim>\<open>_allocate_new_agent\<close>. \<open>establish_bridge\<close> is the connection's
  \<^verbatim>\<open>_establish_bridge\<close>, which lives outside this module: it returns the stub of
  the new bridge or raises. A new \<^verbatim>\<open>RunnerAgent\<close> starts with an open cleanup scope
  and an empty connectivity history.
\<close>

definition allocate_new_agent ::
  "(LocalPythonGRPC \<Rightarrow> real \<Rightarrow> exn + nat) \<Rightarrow> BridgeManager \<Rightarrow> LocalPythonGRPC \<Rightarrow> nat \<Rightarrow>
     (exn + RunnerAgent) \<times> BridgeManager \<times> bridge_effect list" where
  "allocate_new_agent establish_bridge self connection queue =
     (case pop_available_agents (agents self (identify connection)) of
        (found, rest, dead) \<Rightarrow>
          (let self' = self\<lparr>agents := (agents self)(identify connection := rest)\<rparr> in
           case found of
             Some agent \<Rightarrow> (Inr agent, self', map Terminated dead)
           | None \<Rightarrow>
               (case establish_bridge connection MAX_GRPC_WAIT_TIMEOUT of
                  Inl e \<Rightarrow>
                    (Inl e, self',
                     map Terminated dead @ [EstablishBridge connection MAX_GRPC_WAIT_TIMEOUT])
                | Inr new_stub \<Rightarrow>
                    (Inr \<lparr>stub = new_stub, message_queue = queue,
                          bound_context_closed = False, channel_state_history = []\<rparr>,
                     self',
                     map Terminated dead @ [EstablishBridge connection MAX_GRPC_WAIT_TIMEOUT]))))"

definition cache_agent :: "BridgeManager \<Rightarrow> LocalPythonGRPC \<Rightarrow> RunnerAgent \<Rightarrow> BridgeManager" where
  "cache_agent self connection agent =
     self\<lparr>agents := (agents self)
       (identify connection := agent # agents self (identify connection))\<rparr>"

text \<open>
  \<^verbatim>\<open>establish\<close> is a generator context manager: the agent is allocated, the body of
  the \<^verbatim>\<open>with\<close> statement runs with it, and the \<^verbatim>\<open>finally\<close> clause runs
  \<^verbatim>\<open>_cache_agent\<close> however the body ends. The body is a function from the agent to
  its outcome (a value, or the exception it exits with) and the agent as the body left
  it, since the body may call \<^verbatim>\<open>terminate()\<close> on it. When the allocation itself raises
  there is no agent and the \<^verbatim>\<open>try\<close> statement is never entered.
\<close>

definition establish ::
  "(LocalPythonGRPC \<Rightarrow> real \<Rightarrow> exn + nat) \<Rightarrow> BridgeManager \<Rightarrow> LocalPythonGRPC \<Rightarrow> nat \<Rightarrow>
     (RunnerAgent \<Rightarrow> (exn + 'r) \<times> RunnerAgent) \<Rightarrow>
     (exn + 'r) \<times> BridgeManager \<times> bridge_effect list" where
  "establish establish_bridge self connection queue body =
     (case allocate_new_agent establish_bridge self connection queue of
        (Inl e, self', effects) \<Rightarrow> (Inl e, self', effects)
      | (Inr agent, self', effects) \<Rightarrow>
          (case body agent of
             (outcome, agent') \<Rightarrow> (outcome, cache_agent self' connection agent', effects)))"


section \<open>Collaborators and bodies used in the examples\<close>

text \<open>\<^verbatim>\<open>BridgeManager()\<close>: the pool built by \<^verbatim>\<open>defaultdict(list)\<close>, with no agent.\<close>

definition new_manager :: BridgeManager where
  "new_manager = \<lparr>agents = (\<lambda>_. [])\<rparr>"

text \<open>An \<^verbatim>\<open>_establish_bridge\<close> that succeeds with the given stub.\<close>

definition bridge_opens :: "nat \<Rightarrow> LocalPythonGRPC \<Rightarrow> real \<Rightarrow> exn + nat" where
  "bridge_opens s connection timeout = Inr s"

text \<open>
  Three bodies of a \<^verbatim>\<open>with establish(...)\<close> statement: one that completes, one that
  exits with an exception, and one whose agent is terminated (as \<^verbatim>\<open>Task.cancel\<close> does)
  before it exits with an exception.
\<close>

definition body_returns :: "RunnerAgent \<Rightarrow> (exn + unit) \<times> RunnerAgent" where
  "body_returns agent = (Inr (), agent)"

definition body_raises :: "exn \<Rightarrow> RunnerAgent \<Rightarrow> (exn + unit) \<times> RunnerAgent" where
  "body_raises e agent = (Inl e, agent)"

definition body_terminates :: "RunnerAgent \<Rightarrow> (exn + unit) \<times> RunnerAgent" where
  "body_terminates agent = (Inl CancelledError, terminate agent)"


section \<open>Stream elements\<close>

text \<open>
  Modelled from the spec: the declarations of \<^verbatim>\<open>isolate.logs\<close> and of the protobuf
  messages are not among the sources. The spec (section 3) gives a log a message, a level
  among TRACE, DEBUG, INFO, WARNING, ERROR and a source among BUILDER, BRIDGE, USER; a
  serialized object its codec name, its bytes, the \<^verbatim>\<open>was_it_raised\<close> flag and an
  optional traceback; a stream element \<^verbatim>\<open>is_complete\<close>, \<^verbatim>\<open>logs\<close> and an optional
  \<^verbatim>\<open>result\<close>. \<^verbatim>\<open>to_grpc\<close> on a log changes its representation only and does not
  appear.
\<close>

datatype LogLevel = TRACE | DEBUG | INFO | WARNING | ERROR

datatype LogSource = BUILDER | BRIDGE | USER

record Log =
  message :: string
  level :: LogLevel
  source :: LogSource

record SerializedObject =
  serialization_method :: string
  serialized_definition :: string
  was_it_raised :: bool
  stringized_traceback :: "string option"

record PartialRunResult =
  is_complete :: bool
  logs :: "Log list"
  result :: "SerializedObject option"

text \<open>
  \<^verbatim>\<open>IsolateServicer.log\<close> yields one element that carries one log; its defaults are
  \<^verbatim>\<open>LogLevel.TRACE\<close> and \<^verbatim>\<open>LogSource.BRIDGE\<close>.
\<close>

definition servicer_log :: "string \<Rightarrow> LogLevel \<Rightarrow> LogSource \<Rightarrow> PartialRunResult list" where
  "servicer_log msg lvl src =
     [\<lparr>is_complete = False, logs = [\<lparr>message = msg, level = lvl, source = src\<rparr>],
       result = None\<rparr>]"


section \<open>The per-task queue and its producers\<close>

text \<open>
  A \<^verbatim>\<open>queue.Queue\<close> is a list with the oldest element at the head: \<^verbatim>\<open>put_nowait\<close>
  appends, \<^verbatim>\<open>get\<close> takes the head. \<^verbatim>\<open>LogHandler._add_log_to_queue\<close> wraps the log
  in an element and puts it; \<^verbatim>\<open>_proxy_to_queue\<close> puts each message of the agent's
  stream as it is.
\<close>

definition add_log_to_queue :: "Log \<Rightarrow> PartialRunResult list \<Rightarrow> PartialRunResult list" where
  "add_log_to_queue grpc_log messages =
     messages @ [\<lparr>is_complete = False, logs = [grpc_log], result = None\<rparr>]"

fun proxy_to_queue :: "PartialRunResult list \<Rightarrow> PartialRunResult list \<Rightarrow> PartialRunResult list" where
  "proxy_to_queue queue [] = queue"
| "proxy_to_queue queue (msg # bridge_run) = proxy_to_queue (queue @ [msg]) bridge_run"


section \<open>Draining the queue\<close>

definition EMPTY_MESSAGE_INTERVAL :: real where
  \<comment> \<open>the default of \<^verbatim>\<open>ISOLATE_EMPTY_MESSAGE_INTERVAL\<close>, in seconds\<close>
  "EMPTY_MESSAGE_INTERVAL = 600"

text \<open>
  \<^verbatim>\<open>watch_queue_until_completed\<close> runs on the thread of the outbound stream while the
  producers and the watched future run on other threads. What those threads do is given
  to the model as a schedule with one \<open>tick\<close> for each iteration of the drainer's loops:
  \<^item> \<open>arrivals\<close>: the elements the producers put on the watched queue since the previous
    iteration, up to the moment this iteration's \<^verbatim>\<open>is_completed()\<close> returns true or its
    \<^verbatim>\<open>queue.get(timeout=_Q_WAIT_DELAY)\<close> returns or times out;
  \<^item> \<open>completed\<close>: what \<^verbatim>\<open>is_completed()\<close> returns in this iteration;
  \<^item> \<open>clock\<close>: the value of \<^verbatim>\<open>time.monotonic()\<close> in this iteration (the two readings
    of the \<^verbatim>\<open>except QueueEmpty\<close> branch are taken at one instant).
  After the last tick of the schedule nothing more arrives and the future stays as it is.
\<close>

record tick =
  completed :: bool
  arrivals :: "PartialRunResult list"
  clock :: real

text \<open>
  What the generator yields, with the \<^verbatim>\<open>yield\<close> statement it comes from: an element
  taken from the queue (by \<^verbatim>\<open>queue.get\<close> in the first loop or \<^verbatim>\<open>queue.get_nowait\<close> in
  the second), or the empty element of the \<^verbatim>\<open>except QueueEmpty\<close> branch, with the value
  the timer is reset to.
\<close>

datatype drained = Dequeued PartialRunResult | Synthetic real

definition element :: "drained \<Rightarrow> PartialRunResult" where
  "element d =
     (case d of
        Dequeued m \<Rightarrow> m
      | Synthetic t \<Rightarrow> \<lparr>is_complete = False, logs = [], result = None\<rparr>)"

text \<open>
  The first loop, \<^verbatim>\<open>while not is_completed()\<close>. The result is what was yielded, the
  queue when the loop is left and the rest of the schedule; \<open>None\<close> when the schedule
  ends before \<^verbatim>\<open>is_completed()\<close> has returned true, which is a loop that never ends.
  The timer is set only where a synthetic element is yielded.
\<close>

fun watch_loop ::
  "real \<Rightarrow> real \<Rightarrow> tick list \<Rightarrow> PartialRunResult list \<Rightarrow>
     (drained list \<times> PartialRunResult list \<times> tick list) option" where
  "watch_loop interval timer [] queue = None"
| "watch_loop interval timer (t # ts) queue =
     (if completed t then Some ([], queue @ arrivals t, ts)
      else
        (case queue @ arrivals t of
           m # rest \<Rightarrow>
             (case watch_loop interval timer ts rest of
                None \<Rightarrow> None
              | Some (out, q, r) \<Rightarrow> Some (Dequeued m # out, q, r))
         | [] \<Rightarrow>
             if clock t - timer > interval then
               (case watch_loop interval (clock t) ts [] of
                  None \<Rightarrow> None
                | Some (out, q, r) \<Rightarrow> Some (Synthetic (clock t) # out, q, r))
             else watch_loop interval timer ts []))"

text \<open>
  The second loop, \<^verbatim>\<open>while not queue.empty()\<close>: with a single consumer
  \<^verbatim>\<open>get_nowait\<close> never raises here. It stops at the first iteration that finds the queue
  empty.
\<close>

fun clear_final_messages :: "tick list \<Rightarrow> PartialRunResult list \<Rightarrow> PartialRunResult list" where
  "clear_final_messages [] queue = queue"
| "clear_final_messages (t # ts) queue =
     (case queue @ arrivals t of
        [] \<Rightarrow> []
      | m # rest \<Rightarrow> m # clear_final_messages ts rest)"

definition watch_queue_until_completed ::
  "real \<Rightarrow> real \<Rightarrow> tick list \<Rightarrow> PartialRunResult list \<Rightarrow> drained list option" where
  "watch_queue_until_completed interval now ticks queue =
     (case watch_loop interval now ticks queue of
        None \<Rightarrow> None
      | Some (out, q, rest) \<Rightarrow> Some (out @ map Dequeued (clear_final_messages rest q)))"


section \<open>Notions used to state the properties of the drainer\<close>

text \<open>The elements taken from the queue, in the order they were yielded.\<close>

fun dequeued :: "drained list \<Rightarrow> PartialRunResult list" where
  "dequeued [] = []"
| "dequeued (Dequeued m # ds) = m # dequeued ds"
| "dequeued (Synthetic t # ds) = dequeued ds"

text \<open>The values the timer was reset to, one for each synthetic element, in order.\<close>

fun synthetic_times :: "drained list \<Rightarrow> real list" where
  "synthetic_times [] = []"
| "synthetic_times (Dequeued m # ds) = synthetic_times ds"
| "synthetic_times (Synthetic t # ds) = t # synthetic_times ds"

text \<open>
  \<open>spaced interval t us\<close>: the first instant of \<open>us\<close> is more than \<open>interval\<close> after
  \<open>t\<close>, and each later one more than \<open>interval\<close> after the one before.
\<close>

fun spaced :: "real \<Rightarrow> real \<Rightarrow> real list \<Rightarrow> bool" where
  "spaced interval t [] = True"
| "spaced interval t (u # us) = (u - t > interval \<and> spaced interval u us)"

text \<open>
  Two elements for the examples: the terminal element an agent sends for a function that
  returned, and a log of the kind the log hook receives.
\<close>

definition result_element :: PartialRunResult where
  "result_element =
     \<lparr>is_complete = True, logs = [],
      result = Some \<lparr>serialization_method = ''pickle'', serialized_definition = ''42'',
                     was_it_raised = False, stringized_traceback = None\<rparr>\<rparr>"

definition agent_log :: Log where
  "agent_log = \<lparr>message = ''Sending the result.'', level = TRACE, source = BRIDGE\<rparr>"


section \<open>Requests and tasks\<close>

text \<open>
  Modelled from the spec: the protobuf declarations of the request messages are not among
  the sources. The spec (sections 3 and 6) gives an environment definition a kind, an
  opaque configuration and a \<^verbatim>\<open>force\<close> flag, and a bound function an ordered list of
  environments, the serialized function and an optional setup function. The field
  \<^verbatim>\<open>function\<close> is called \<open>bound_function\<close> here, as \<open>function\<close> is a reserved word.
\<close>

record EnvironmentDefinition =
  kind :: string
  configuration :: string
  force :: bool

record BoundFunction =
  environments :: "EnvironmentDefinition list"
  bound_function :: SerializedObject
  setup_func :: "SerializedObject option"

text \<open>
  What the servicer uses of a \<^verbatim>\<open>concurrent.futures.Future\<close>: its state (the library's
  \<^verbatim>\<open>PENDING\<close>, \<^verbatim>\<open>RUNNING\<close>, \<^verbatim>\<open>CANCELLED\<close>, and \<^verbatim>\<open>FINISHED\<close> with its exception, if
  any) and the callbacks added with \<^verbatim>\<open>add_done_callback\<close>. The only callback in
  \<^verbatim>\<open>server.py\<close> is the \<^verbatim>\<open>_callback\<close> of \<^verbatim>\<open>Submit\<close>, which pops a task id from the
  registry; a callback is kept as that id.
\<close>

datatype future_state = Pending | Running | Cancelled | Finished "exn option"

record Future =
  state :: future_state
  done_callbacks :: "string list"

record Task =
  request :: BoundFunction
  future :: "Future option"
  agent :: "RunnerAgent option"

text \<open>\<^verbatim>\<open>Task(request=request)\<close>: the dataclass defaults leave the other fields \<^verbatim>\<open>None\<close>.\<close>

definition new_task :: "BoundFunction \<Rightarrow> Task" where
  "new_task request_function = \<lparr>request = request_function, future = None, agent = None\<rparr>"

text \<open>
  \<^verbatim>\<open>str(exception)\<close>. \<^verbatim>\<open>GRPCException.__str__\<close> is \<^verbatim>\<open>f"{self.code.name}: {self.message}"\<close>;
  the other exceptions carry their text.
\<close>

fun status_name :: "StatusCode \<Rightarrow> string" where
  "status_name OK = ''OK''"
| "status_name CANCELLED = ''CANCELLED''"
| "status_name UNKNOWN = ''UNKNOWN''"
| "status_name INVALID_ARGUMENT = ''INVALID_ARGUMENT''"
| "status_name DEADLINE_EXCEEDED = ''DEADLINE_EXCEEDED''"
| "status_name NOT_FOUND = ''NOT_FOUND''"
| "status_name ALREADY_EXISTS = ''ALREADY_EXISTS''"
| "status_name PERMISSION_DENIED = ''PERMISSION_DENIED''"
| "status_name RESOURCE_EXHAUSTED = ''RESOURCE_EXHAUSTED''"
| "status_name FAILED_PRECONDITION = ''FAILED_PRECONDITION''"
| "status_name ABORTED = ''ABORTED''"
| "status_name OUT_OF_RANGE = ''OUT_OF_RANGE''"
| "status_name UNIMPLEMENTED = ''UNIMPLEMENTED''"
| "status_name INTERNAL = ''INTERNAL''"
| "status_name UNAVAILABLE = ''UNAVAILABLE''"
| "status_name DATA_LOSS = ''DATA_LOSS''"
| "status_name UNAUTHENTICATED = ''UNAUTHENTICATED''"

fun str_of :: "exn \<Rightarrow> string" where
  "str_of (GRPCException msg code) = status_name code @ '': '' @ msg"
| "str_of (RpcError code s) = s"
| "str_of (AgentError s) = s"
| "str_of (EnvironmentCreationError s) = s"
| "str_of (ValueError s) = s"
| "str_of (TypeError s) = s"
| "str_of CancelledError = []"
| "str_of (AttributeError s) = s"
| "str_of (OtherException s) = s"


section \<open>The task runner\<close>





text \<open>
  The end of the \<^verbatim>\<open>with establish(...)\<close> body of \<^verbatim>\<open>_run_task\<close>, after the queue has
  been drained: \<open>exception\<close> is \<^verbatim>\<open>future.exception(timeout=0.1)\<close> of the pump.
  \<^verbatim>\<open>traceback.format_exception\<close> is the parameter \<open>format_exception\<close>. The result is
  what is yielded here and how the body ends.
\<close>

definition check_pump_exception ::
  "(exn \<Rightarrow> string list) \<Rightarrow> exn option \<Rightarrow> PartialRunResult list \<times> (exn + unit)" where
  "check_pump_exception format_exception exception =
     (case exception of
        None \<Rightarrow> ([], Inr ())
      | Some (RpcError code s) \<Rightarrow> ([], Inl (GRPCException s code))
      | Some e \<Rightarrow>
          (concat (map (\<lambda>line. servicer_log line ERROR BRIDGE) (format_exception e)),
           case e of
             AgentError s \<Rightarrow> Inl (GRPCException s ABORTED)
           | _ \<Rightarrow>
               Inl (GRPCException (''An unexpected error occurred: '' @ str_of e @ ''.'')
                      UNKNOWN)))"

text \<open>
  The dispatch inside the \<^verbatim>\<open>with\<close> body: the pump runs on the local pool while the
  agent's queue is drained with \<^verbatim>\<open>future.done\<close> as \<^verbatim>\<open>is_completed\<close>; then the pump's
  exception is looked at. \<open>ticks\<close> is the schedule of that drain, \<open>queue\<close> what is on the
  agent's queue when it starts and \<open>exception\<close> how the pump ended. \<open>None\<close> when the pump
  never ends.
\<close>

definition dispatch ::
  "real \<Rightarrow> (exn \<Rightarrow> string list) \<Rightarrow> real \<Rightarrow> tick list \<Rightarrow> PartialRunResult list \<Rightarrow>
   exn option \<Rightarrow> (PartialRunResult list \<times> (exn + unit)) option" where
  "dispatch interval format_exception now ticks queue exception =
     (case watch_queue_until_completed interval now ticks queue of
        None \<Rightarrow> None
      | Some out \<Rightarrow>
          (case check_pump_exception format_exception exception of
             (trace, outcome) \<Rightarrow> Some (map element out @ trace, outcome)))"


section \<open>Collaborators of the task runner used in the examples\<close>



text \<open>A \<^verbatim>\<open>traceback.format_exception\<close> that gives two lines.\<close>

definition traceback_lines :: "exn \<Rightarrow> string list" where
  "traceback_lines e = [''Traceback (most recent call last):'', str_of e]"



section \<open>The agent\<close>

text \<open>
  \<^verbatim>\<open>AgentServicer\<close> of \<^verbatim>\<open>connections/grpc/agent.py\<close>. A Python object is kept as a
  string. What the agent calls outside its own code is a record of collaborators:
  \<^item> \<open>from_grpc_object\<close>: \<^verbatim>\<open>from_grpc\<close> of \<^verbatim>\<open>isolate.connections.grpc.interface\<close>; it
    returns the object or raises, and then gives the exception and
    \<^verbatim>\<open>traceback.format_exc()\<close>;
  \<^item> \<open>is_callable\<close>, \<open>type_name\<close>, \<open>type_str\<close>: \<^verbatim>\<open>callable(f)\<close>,
    \<^verbatim>\<open>type(f).__name__\<close> and \<^verbatim>\<open>str(type(f))\<close>;
  \<^item> \<open>call\<close>: the call \<^verbatim>\<open>function(*extra_args)\<close> inside its \<^verbatim>\<open>try\<close> statement, with
    the three values \<^verbatim>\<open>execute_function\<close> returns after it;
  \<^item> \<open>serialize_object\<close>: \<^verbatim>\<open>serialize_object\<close> of \<^verbatim>\<open>isolate.connections.common\<close>;
  \<^item> \<open>sha256_digest_of\<close>: the helper of \<^verbatim>\<open>isolate.backends.common\<close>.
\<close>

datatype serialized = Serialized string | SerializationError | SerializationFailure

record collaborators =
  from_grpc_object :: "SerializedObject \<Rightarrow> (string \<times> string) + string"
  is_callable :: "string \<Rightarrow> bool"
  type_name :: "string \<Rightarrow> string"
  type_str :: "string \<Rightarrow> string"
  call :: "string \<Rightarrow> string list \<Rightarrow> string \<times> bool \<times> string option"
  serialize_object :: "string \<Rightarrow> string \<Rightarrow> serialized"
  sha256_digest_of :: "string \<Rightarrow> string \<Rightarrow> string"








section \<open>The producers of one dispatch\<close>











section \<open>Background tasks\<close>

record IsolateServicer =
  background_tasks :: "string \<rightharpoonup> Task"

text \<open>
  The library invokes the callbacks of a future when it is cancelled or finishes; each
  \<^verbatim>\<open>_callback\<close> runs \<^verbatim>\<open>self.background_tasks.pop(task_id, None)\<close>.
\<close>

definition invoke_callbacks :: "Future \<Rightarrow> (string \<rightharpoonup> Task) \<Rightarrow> (string \<rightharpoonup> Task)" where
  "invoke_callbacks f tasks = fold (\<lambda>task_id ts. ts(task_id := None)) (done_callbacks f) tasks"

text \<open>
  A task is an object shared by the registry and by whoever looked it up. The model keeps
  the object beside the registry and, after each change of the object, stores it again
  under its id if the id is still registered.
\<close>

definition publish :: "string \<Rightarrow> Task \<Rightarrow> (string \<rightharpoonup> Task) \<Rightarrow> (string \<rightharpoonup> Task)" where
  "publish task_id task tasks =
     (if tasks task_id = None then tasks else tasks(task_id \<mapsto> task))"

text \<open>
  \<^verbatim>\<open>Future.cancel()\<close>: a pending future becomes cancelled and its callbacks are invoked; a
  running, finished or cancelled one is left as it is. The result is the new future and
  whether the callbacks were invoked.
\<close>

definition future_cancel :: "Future \<Rightarrow> Future \<times> bool" where
  "future_cancel f =
     (if state f = Pending then (f\<lparr>state := Cancelled\<rparr>, True) else (f, False))"

text \<open>
  What happens during one \<^verbatim>\<open>self.future.exception(timeout=0.1)\<close> on a running future:
  the worker is still running when the timeout expires, or the future finishes (with the
  exception given, if any) and the worker invokes its callbacks.
\<close>

datatype wait = StillRunning | Done "exn option"

text \<open>
  The first two statements of a round of \<^verbatim>\<open>Task.cancel\<close>, for the task stored under
  \<open>task_id\<close> whose future is \<open>f\<close>: \<^verbatim>\<open>self.future.cancel()\<close>, with the callbacks
  invoked if the future was pending, and \<^verbatim>\<open>self.agent.terminate()\<close> if there is an
  agent. The result is the future, the task and the registry afterwards.
\<close>

definition cancel_and_terminate ::
  "string \<Rightarrow> Task \<Rightarrow> Future \<Rightarrow> (string \<rightharpoonup> Task) \<Rightarrow>
     Future \<times> Task \<times> (string \<rightharpoonup> Task)" where
  "cancel_and_terminate task_id self f tasks =
     (let f1 = fst (future_cancel f);
          self1 = self\<lparr>future := Some f1\<rparr>;
          tasks1 = (if snd (future_cancel f)
                    then invoke_callbacks f1 (publish task_id self1 tasks)
                    else tasks);
          self2 = self1\<lparr>agent := map_option terminate (agent self1)\<rparr>
      in (f1, self2, publish task_id self2 tasks1))"

text \<open>
  \<^verbatim>\<open>Task.cancel\<close>. Each round cancels the future, terminates the agent and asks the
  future for its exception: \<^verbatim>\<open>CancelledError\<close> leaves the loop as an exception (only
  \<^verbatim>\<open>TimeoutError\<close> is caught), a finished future ends the loop, a running one is waited
  for. The schedule says how each wait ends; \<open>None\<close> when the schedule ends with the
  future still running, which is a loop that has not ended. A task without a future
  raises \<^verbatim>\<open>AttributeError\<close> at \<^verbatim>\<open>self.future.cancel()\<close>.
\<close>

fun Task_cancel ::
  "wait list \<Rightarrow> string \<Rightarrow> Task \<Rightarrow> (string \<rightharpoonup> Task) \<Rightarrow>
     ((exn + unit) \<times> Task \<times> (string \<rightharpoonup> Task)) option" where
  "Task_cancel sched task_id self tasks =
     (case future self of
        None \<Rightarrow> Some (Inl (AttributeError ''NoneType object has no attribute cancel''), self, tasks)
      | Some f \<Rightarrow>
          (case cancel_and_terminate task_id self f tasks of
             (f1, self2, tasks2) \<Rightarrow>
               (case state f1 of
                  Cancelled \<Rightarrow> Some (Inl CancelledError, self2, tasks2)
                | Finished e \<Rightarrow> Some (Inr (), self2, tasks2)
                | _ \<Rightarrow>
                    (case sched of
                       [] \<Rightarrow> None
                     | StillRunning # rest \<Rightarrow> Task_cancel rest task_id self2 tasks2
                     | Done e # rest \<Rightarrow>
                         (let f3 = f1\<lparr>state := Finished e\<rparr>;
                              self3 = self2\<lparr>future := Some f3\<rparr>
                          in Some (Inr (), self3,
                                   invoke_callbacks f3 (publish task_id self3 tasks2)))))))"

datatype CancelResponse = CancelResponse

text \<open>\<^verbatim>\<open>IsolateServicer.Cancel\<close>.\<close>

definition Cancel ::
  "wait list \<Rightarrow> IsolateServicer \<Rightarrow> string \<Rightarrow>
     ((exn + CancelResponse) \<times> IsolateServicer) option" where
  "Cancel sched self task_id =
     (case background_tasks self task_id of
        None \<Rightarrow> Some (Inr CancelResponse, self)
      | Some task \<Rightarrow>
          (case Task_cancel sched task_id task (background_tasks self) of
             None \<Rightarrow> None
           | Some (Inl e, task', tasks') \<Rightarrow> Some (Inl e, self\<lparr>background_tasks := tasks'\<rparr>)
           | Some (Inr u, task', tasks') \<Rightarrow>
               Some (Inr CancelResponse, self\<lparr>background_tasks := tasks'\<rparr>)))"

text \<open>
  \<^verbatim>\<open>IsolateServicer.Submit\<close>. \<open>task_id\<close> is the \<^verbatim>\<open>uuid4\<close> drawn for the task and
  \<open>progress\<close> the state the pool's future has reached when \<^verbatim>\<open>add_done_callback\<close> is
  called: if it is done by then the library runs the callback at once, otherwise it keeps
  it. The future is assigned to the task before the task is stored.
\<close>

definition Submit ::
  "string \<Rightarrow> future_state \<Rightarrow> IsolateServicer \<Rightarrow> BoundFunction \<Rightarrow> string \<times> IsolateServicer" where
  "Submit task_id progress self request_function =
     (let task = new_task request_function;
          task = task\<lparr>future := Some \<lparr>state = progress, done_callbacks = []\<rparr>\<rparr>;
          tasks = (background_tasks self)(task_id \<mapsto> task)
      in case progress of
           Cancelled \<Rightarrow> (task_id, self\<lparr>background_tasks := tasks(task_id := None)\<rparr>)
         | Finished e \<Rightarrow> (task_id, self\<lparr>background_tasks := tasks(task_id := None)\<rparr>)
         | _ \<Rightarrow>
             (task_id,
              self\<lparr>background_tasks := tasks(task_id \<mapsto>
                 task\<lparr>future := Some \<lparr>state = progress, done_callbacks = [task_id]\<rparr>\<rparr>)\<rparr>))"

text \<open>\<^verbatim>\<open>IsolateServicer.List\<close>: the ids of the registered tasks.\<close>

definition List_tasks :: "IsolateServicer \<Rightarrow> string set" where
  "List_tasks self = dom (background_tasks self)"

text \<open>
  What the worker of a registered task does to the task: the pool starts the pipeline,
  \<^verbatim>\<open>_run_task\<close> stores the agent it acquired in \<^verbatim>\<open>task.agent\<close>, and the pipeline ends,
  with the callbacks of its future invoked.
\<close>

definition worker_starts :: "string \<Rightarrow> IsolateServicer \<Rightarrow> IsolateServicer" where
  "worker_starts task_id self =
     (case background_tasks self task_id of
        Some task \<Rightarrow>
          (case future task of
             Some f \<Rightarrow>
               if state f = Pending then
                 self\<lparr>background_tasks := (background_tasks self)
                   (task_id \<mapsto> task\<lparr>future := Some (f\<lparr>state := Running\<rparr>)\<rparr>)\<rparr>
               else self
           | None \<Rightarrow> self)
      | None \<Rightarrow> self)"

definition worker_acquires :: "string \<Rightarrow> RunnerAgent \<Rightarrow> IsolateServicer \<Rightarrow> IsolateServicer" where
  "worker_acquires task_id acquired self =
     (case background_tasks self task_id of
        Some task \<Rightarrow>
          self\<lparr>background_tasks := (background_tasks self)
            (task_id \<mapsto> task\<lparr>agent := Some acquired\<rparr>)\<rparr>
      | None \<Rightarrow> self)"

definition worker_finishes :: "string \<Rightarrow> exn option \<Rightarrow> IsolateServicer \<Rightarrow> IsolateServicer" where
  "worker_finishes task_id e self =
     (case background_tasks self task_id of
        Some task \<Rightarrow>
          (case future task of
             Some f \<Rightarrow>
               if state f = Running then
                 self\<lparr>background_tasks :=
                   invoke_callbacks (f\<lparr>state := Finished e\<rparr>)
                     ((background_tasks self)
                        (task_id \<mapsto> task\<lparr>future := Some (f\<lparr>state := Finished e\<rparr>)\<rparr>))\<rparr>
               else self
           | None \<Rightarrow> self)
      | None \<Rightarrow> self)"

text \<open>
  The states of the servicer that its operations and the workers of its tasks can reach
  from the empty registry. \<^verbatim>\<open>Run\<close> and \<^verbatim>\<open>List\<close> leave the registry as it is: the task
  \<^verbatim>\<open>Run\<close> makes is never stored.
\<close>

inductive reachable :: "IsolateServicer \<Rightarrow> bool" where
  initial: "reachable \<lparr>background_tasks = Map.empty\<rparr>"
| submit: "reachable s \<Longrightarrow> reachable (snd (Submit task_id progress s request_function))"
| cancel: "reachable s \<Longrightarrow> Cancel sched s task_id = Some (r, s') \<Longrightarrow> reachable s'"
| starts: "reachable s \<Longrightarrow> reachable (worker_starts task_id s)"
| acquires: "reachable s \<Longrightarrow> reachable (worker_acquires task_id acquired s)"
| finishes: "reachable s \<Longrightarrow> reachable (worker_finishes task_id e s)"


section \<open>Notions used to state the properties of the registry\<close>

text \<open>
  A task is settled when another round of \<^verbatim>\<open>Task.cancel\<close> has nothing left to change:
  it has no future, or its future is cancelled or finished and its agent, if any, has
  been terminated.
\<close>

definition settled :: "Task \<Rightarrow> bool" where
  "settled t =
     (case future t of
        None \<Rightarrow> True
      | Some f \<Rightarrow>
          (case state f of Cancelled \<Rightarrow> True | Finished e \<Rightarrow> True | _ \<Rightarrow> False) \<and>
          agent t = map_option terminate (agent t))"

text \<open>Every task of a registry has a future.\<close>

definition with_future :: "(string \<rightharpoonup> Task) \<Rightarrow> bool" where
  "with_future tasks = (\<forall>k t. tasks k = Some t \<longrightarrow> future t \<noteq> None)"

text \<open>
  For the examples: a request, and the servicer after one \<^verbatim>\<open>Submit\<close> whose pipeline
  was already running when the callback was added.
\<close>

definition example_request :: BoundFunction where
  "example_request =
     \<lparr>environments = [\<lparr>kind = ''virtualenv'', configuration = ''{}'', force = False\<rparr>],
      bound_function = \<lparr>serialization_method = ''pickle'', serialized_definition = ''f'',
                        was_it_raised = False, stringized_traceback = None\<rparr>,
      setup_func = None\<rparr>"

definition submitted :: IsolateServicer where
  "submitted = snd (Submit ''t1'' Running \<lparr>background_tasks = Map.empty\<rparr> example_request)"


section \<open>Properties of the runner agent\<close>

lemma last_known_state_eq:
  "last_known_state a =
     (if channel_state_history a = [] then None
      else Some (last (channel_state_history a)))"
  by (cases "channel_state_history a") (simp_all add: last_known_state_def)

text \<open>
  Claim C9. \<^verbatim>\<open>is_accessible\<close> is true exactly when the recorded connectivity history
  is non-empty and its most recent entry is \<^verbatim>\<open>READY\<close>; an agent whose history is
  empty is not accessible, and after a connectivity update the answer is whether that
  update was \<^verbatim>\<open>READY\<close>.
\<close>

theorem is_accessible_iff_last_ready:
  "is_accessible a =
     (channel_state_history a \<noteq> [] \<and> last (channel_state_history a) = READY)
   \<and> is_accessible (a\<lparr>channel_state_history := []\<rparr>) = False
   \<and> is_accessible (switch_state u a) = (u = READY)"
  by (simp add: is_accessible_def last_known_state_eq switch_state_def)

section \<open>Properties of the bridge manager\<close>

lemma pop_available_agents_eq:
  "pop_available_agents stack =
     (case dropWhile (\<lambda>a. \<not> is_accessible a) stack of
        [] \<Rightarrow> (None, [], stack)
      | ag # rest \<Rightarrow> (Some ag, rest, takeWhile (\<lambda>a. \<not> is_accessible a) stack))"
proof (induction stack)
  case Nil
  show ?case by simp
next
  case (Cons a stack)
  show ?case
  proof (cases "is_accessible a")
    case True
    then show ?thesis by (simp add: check_connectivity_def)
  next
    case False
    then show ?thesis
      using Cons
      by (cases "dropWhile (\<lambda>a. \<not> is_accessible a) stack")
         (simp_all add: check_connectivity_def del: dropWhile_eq_Nil_conv)
  qed
qed

text \<open>
  Claim C7. The pool is keyed by the ordered list of the primary path and the
  inheritance paths, so two connections have the same key exactly when their primary
  paths and their inheritance lists (order included) are equal. An acquisition looks
  only at the stack of that key: the candidates popped before the first accessible one
  (\<open>takeWhile\<close>) are each terminated, the first accessible one is returned and the
  rest of the stack stays; when no candidate is accessible every one of them is
  terminated, the stack is left empty, and only then \<^verbatim>\<open>_establish_bridge\<close> is called,
  with \<^verbatim>\<open>MAX_GRPC_WAIT_TIMEOUT\<close>. The stacks of all other keys are unchanged, in
  both cases, as the updated pool shows; and an agent that is returned to the pool is
  pushed on the stack of its connection's key only, so connections with different keys
  never share a pooled agent.
\<close>

theorem allocate_new_agent_pool:
  "(identify c1 = identify c2) =
     (environment_path c1 = environment_path c2 \<and>
      extra_inheritance_paths c1 = extra_inheritance_paths c2)
   \<and> allocate_new_agent eb self connection queue =
       (case dropWhile (\<lambda>a. \<not> is_accessible a) (agents self (identify connection)) of
          ag # rest \<Rightarrow>
            (Inr ag,
             self\<lparr>agents := (agents self)(identify connection := rest)\<rparr>,
             map Terminated
               (takeWhile (\<lambda>a. \<not> is_accessible a) (agents self (identify connection))))
        | [] \<Rightarrow>
            (case eb connection MAX_GRPC_WAIT_TIMEOUT of
               Inl e \<Rightarrow> Inl e
             | Inr new_stub \<Rightarrow>
                 Inr \<lparr>stub = new_stub, message_queue = queue,
                      bound_context_closed = False, channel_state_history = []\<rparr>,
             self\<lparr>agents := (agents self)(identify connection := [])\<rparr>,
             map Terminated (agents self (identify connection)) @
               [EstablishBridge connection MAX_GRPC_WAIT_TIMEOUT]))
   \<and> agents (cache_agent self connection returned) key =
       (if key = identify connection then returned # agents self key else agents self key)"
proof (intro conjI)
  show "(identify c1 = identify c2) =
     (environment_path c1 = environment_path c2 \<and>
      extra_inheritance_paths c1 = extra_inheritance_paths c2)"
    by (simp add: identify_def)
next
  show "agents (cache_agent self connection returned) key =
       (if key = identify connection then returned # agents self key else agents self key)"
    by (simp add: cache_agent_def)
next
  show "allocate_new_agent eb self connection queue =
       (case dropWhile (\<lambda>a. \<not> is_accessible a) (agents self (identify connection)) of
          ag # rest \<Rightarrow>
            (Inr ag,
             self\<lparr>agents := (agents self)(identify connection := rest)\<rparr>,
             map Terminated
               (takeWhile (\<lambda>a. \<not> is_accessible a) (agents self (identify connection))))
        | [] \<Rightarrow>
            (case eb connection MAX_GRPC_WAIT_TIMEOUT of
               Inl e \<Rightarrow> Inl e
             | Inr new_stub \<Rightarrow>
                 Inr \<lparr>stub = new_stub, message_queue = queue,
                      bound_context_closed = False, channel_state_history = []\<rparr>,
             self\<lparr>agents := (agents self)(identify connection := [])\<rparr>,
             map Terminated (agents self (identify connection)) @
               [EstablishBridge connection MAX_GRPC_WAIT_TIMEOUT]))"
  proof (cases "dropWhile (\<lambda>a. \<not> is_accessible a) (agents self (identify connection))")
    case Nil
    then have "takeWhile (\<lambda>a. \<not> is_accessible a) (agents self (identify connection)) =
        agents self (identify connection)"
      by simp
    with Nil show ?thesis
      by (cases "eb connection MAX_GRPC_WAIT_TIMEOUT")
         (simp_all add: allocate_new_agent_def pop_available_agents_eq Let_def
            del: dropWhile_eq_Nil_conv)
  next
    case (Cons ag rest)
    then show ?thesis
      by (simp add: allocate_new_agent_def pop_available_agents_eq Let_def
            del: dropWhile_eq_Nil_conv)
  qed
qed

lemma allocate_example:
  "allocate_new_agent (bridge_opens 7) new_manager
      \<lparr>environment_path = ''/env'', extra_inheritance_paths = []\<rparr> 0 =
   (Inr \<lparr>stub = 7, message_queue = 0, bound_context_closed = False,
          channel_state_history = []\<rparr>,
    new_manager\<lparr>agents := (agents new_manager)([''/env''] := [])\<rparr>,
    [EstablishBridge \<lparr>environment_path = ''/env'', extra_inheritance_paths = []\<rparr> 10])"
  by (simp add: allocate_new_agent_def new_manager_def bridge_opens_def identify_def
        MAX_GRPC_WAIT_TIMEOUT_def)

text \<open>
  Claim C1, as the code has it. Whatever the outcome of the body (a value or an
  exception) and whatever the body did to the agent (it may have terminated it), the
  \<^verbatim>\<open>finally\<close> clause pushes the agent, as the body left it, onto the stack of the
  connection's key; \<^verbatim>\<open>establish\<close> itself never closes the agent's cleanup scope. Only
  when the allocation raises is nothing pushed.
\<close>

theorem establish_always_caches:
  "(allocate_new_agent eb self connection queue = (Inr ag, self', effects) \<and>
    body ag = (outcome, ag') \<longrightarrow>
      establish eb self connection queue body =
        (outcome, cache_agent self' connection ag', effects)
      \<and> agents (cache_agent self' connection ag') (identify connection) =
          ag' # agents self' (identify connection))
   \<and> (allocate_new_agent eb self connection queue = (Inl e, self', effects) \<longrightarrow>
      establish eb self connection queue body = (Inl e, self', effects))"
  by (simp add: establish_def cache_agent_def)

text \<open>
  On a fresh manager a body that completes leaves the new agent on the stack of its key.
\<close>

theorem establish_always_caches_witness:
  "fst (establish (bridge_opens 7) new_manager
      \<lparr>environment_path = ''/env'', extra_inheritance_paths = []\<rparr> 0 body_returns) = Inr ()
   \<and> agents (fst (snd (establish (bridge_opens 7) new_manager
      \<lparr>environment_path = ''/env'', extra_inheritance_paths = []\<rparr> 0 body_returns)))
       [''/env''] =
      [\<lparr>stub = 7, message_queue = 0, bound_context_closed = False,
            channel_state_history = []\<rparr>]"
proof -
  let ?c = "\<lparr>environment_path = ''/env'', extra_inheritance_paths = []\<rparr>"
  let ?a = "\<lparr>stub = 7, message_queue = 0, bound_context_closed = False,
            channel_state_history = []\<rparr>"
  let ?m = "new_manager\<lparr>agents := (agents new_manager)([''/env''] := [])\<rparr>"
  have body: "body_returns ?a = (Inr (), ?a)"
    by (simp add: body_returns_def)
  have "establish (bridge_opens 7) new_manager ?c 0 body_returns =
        (Inr (), cache_agent ?m ?c ?a, [EstablishBridge ?c 10])
      \<and> agents (cache_agent ?m ?c ?a) (identify ?c) = ?a # agents ?m (identify ?c)"
    using establish_always_caches [where eb = "bridge_opens 7" and self = new_manager
      and connection = ?c and queue = 0 and body = body_returns
      and ag = ?a and self' = ?m and effects = "[EstablishBridge ?c 10]"
      and outcome = "Inr ()" and ag' = ?a] allocate_example body
    by (simp only: simp_thms)
  then show ?thesis
    by (simp add: identify_def)
qed

text \<open>
  Claim C1 as written fails: on a fresh manager, a body that exits with an exception
  leaves the agent on the stack of its key with its cleanup scope still open, and a body
  whose agent was terminated leaves the terminated agent on the stack.
\<close>

theorem establish_exception_counterexample:
  "fst (establish (bridge_opens 7) new_manager
          \<lparr>environment_path = ''/env'', extra_inheritance_paths = []\<rparr> 0
          (body_raises (GRPCException ''agent failed'' ABORTED)))
     = Inl (GRPCException ''agent failed'' ABORTED)
   \<and> agents (fst (snd (establish (bridge_opens 7) new_manager
          \<lparr>environment_path = ''/env'', extra_inheritance_paths = []\<rparr> 0
          (body_raises (GRPCException ''agent failed'' ABORTED))))) [''/env'']
     = [\<lparr>stub = 7, message_queue = 0, bound_context_closed = False,
          channel_state_history = []\<rparr>]
   \<and> agents (fst (snd (establish (bridge_opens 7) new_manager
          \<lparr>environment_path = ''/env'', extra_inheritance_paths = []\<rparr> 0
          body_terminates))) [''/env'']
     = [\<lparr>stub = 7, message_queue = 0, bound_context_closed = True,
          channel_state_history = []\<rparr>]"
  by (simp add: establish_def allocate_example cache_agent_def identify_def
      body_raises_def body_terminates_def terminate_def)

section \<open>Properties of the drainer\<close>

lemma dequeued_append: "dequeued (xs @ ys) = dequeued xs @ dequeued ys"
  by (induction xs rule: dequeued.induct) simp_all

lemma dequeued_map_Dequeued: "dequeued (map Dequeued ms) = ms"
  by (induction ms) simp_all

lemma synthetic_times_append:
  "synthetic_times (xs @ ys) = synthetic_times xs @ synthetic_times ys"
  by (induction xs rule: synthetic_times.induct) simp_all

lemma synthetic_times_map_Dequeued: "synthetic_times (map Dequeued ms) = []"
  by (induction ms) simp_all

lemma watch_loop_None:
  "(watch_loop interval timer ticks queue = None) = (\<forall>t \<in> set ticks. \<not> completed t)"
proof (induction ticks arbitrary: timer queue)
  case Nil
  show ?case by simp
next
  case (Cons t ts)
  show ?case
  proof (cases "queue @ arrivals t")
    case Nil
    then show ?thesis
      using Cons.IH [of timer "[]"] Cons.IH [of "clock t" "[]"]
      by (auto split: option.splits)
  next
    case (Cons m rest)
    then show ?thesis
      using Cons.IH [of timer rest]
      by (auto split: option.splits)
  qed
qed

lemma watch_loop_Some:
  "watch_loop interval timer ticks queue = Some (out, q, rest) \<Longrightarrow>
   \<exists>k < length ticks. completed (ticks ! k) \<and> (\<forall>j < k. \<not> completed (ticks ! j)) \<and>
     rest = drop (Suc k) ticks \<and>
     dequeued out @ q = queue @ concat (map arrivals (take (Suc k) ticks))"
proof (induction ticks arbitrary: timer queue out)
  case Nil
  then show ?case by simp
next
  case (Cons t ts)
  show ?case
  proof (cases "completed t")
    case True
    with Cons.prems have "out = []" "q = queue @ arrivals t" "rest = ts" by simp_all
    with True show ?thesis by (intro exI [of _ 0]) simp
  next
    case False
    note nc = this
    show ?thesis
    proof (cases "queue @ arrivals t")
      case Nil
      note e = this
      show ?thesis
      proof (cases "clock t - timer > interval")
        case True
        with Cons.prems nc e obtain out' where
          w: "watch_loop interval (clock t) ts [] = Some (out', q, rest)"
          and o: "out = Synthetic (clock t) # out'"
          by (auto split: option.splits)
        from Cons.IH [OF w] obtain k where
          k: "k < length ts" "completed (ts ! k)" "\<forall>j < k. \<not> completed (ts ! j)"
             "rest = drop (Suc k) ts"
             "dequeued out' @ q = [] @ concat (map arrivals (take (Suc k) ts))"
          by blast
        have "\<forall>j < Suc k. \<not> completed ((t # ts) ! j)"
          using k(3) nc by (auto simp: nth_Cons split: nat.splits)
        with k o e show ?thesis
          by (intro exI [of _ "Suc k"]) simp
      next
        case False
        with Cons.prems nc e have
          w: "watch_loop interval timer ts [] = Some (out, q, rest)"
          by simp
        from Cons.IH [OF w] obtain k where
          k: "k < length ts" "completed (ts ! k)" "\<forall>j < k. \<not> completed (ts ! j)"
             "rest = drop (Suc k) ts"
             "dequeued out @ q = [] @ concat (map arrivals (take (Suc k) ts))"
          by blast
        have "\<forall>j < Suc k. \<not> completed ((t # ts) ! j)"
          using k(3) nc by (auto simp: nth_Cons split: nat.splits)
        with k e show ?thesis
          by (intro exI [of _ "Suc k"]) simp
      qed
    next
      case (Cons m rest')
      note e = this
      with Cons.prems nc obtain out' where
        w: "watch_loop interval timer ts rest' = Some (out', q, rest)"
        and o: "out = Dequeued m # out'"
        by (auto split: option.splits)
      from Cons.IH [OF w] obtain k where
        k: "k < length ts" "completed (ts ! k)" "\<forall>j < k. \<not> completed (ts ! j)"
           "rest = drop (Suc k) ts"
           "dequeued out' @ q = rest' @ concat (map arrivals (take (Suc k) ts))"
        by blast
      have "\<forall>j < Suc k. \<not> completed ((t # ts) ! j)"
        using k(3) nc by (auto simp: nth_Cons split: nat.splits)
      moreover have "dequeued out @ q = queue @ concat (map arrivals (take (Suc (Suc k)) (t # ts)))"
      proof -
        have "dequeued out @ q = m # rest' @ concat (map arrivals (take (Suc k) ts))"
          using o k(5) by simp
        also have "\<dots> = (queue @ arrivals t) @ concat (map arrivals (take (Suc k) ts))"
          using e by simp
        finally show ?thesis by simp
      qed
      ultimately show ?thesis
        using k by (intro exI [of _ "Suc k"]) simp
    qed
  qed
qed

lemma clear_final_messages_take:
  "\<exists>n \<le> length ts. clear_final_messages ts queue = queue @ concat (map arrivals (take n ts))"
proof (induction ts arbitrary: queue)
  case Nil
  then show ?case by simp
next
  case (Cons t ts)
  show ?case
  proof (cases "queue @ arrivals t")
    case Nil
    then show ?thesis by (intro exI [of _ "Suc 0"]) simp
  next
    case (Cons m rest)
    from Cons.IH [of rest] obtain n where
      n: "n \<le> length ts" "clear_final_messages ts rest = rest @ concat (map arrivals (take n ts))"
      by blast
    have "clear_final_messages (t # ts) queue = m # rest @ concat (map arrivals (take n ts))"
      using Cons n(2) by simp
    also have "\<dots> = (queue @ arrivals t) @ concat (map arrivals (take n ts))"
      using Cons by simp
    finally show ?thesis
      using n(1) by (intro exI [of _ "Suc n"]) simp
  qed
qed

lemma watch_loop_spaced:
  "watch_loop interval timer ticks queue = Some (out, q, rest) \<Longrightarrow>
   spaced interval timer (synthetic_times out)"
proof (induction ticks arbitrary: timer queue out)
  case Nil
  then show ?case by simp
next
  case (Cons t ts)
  show ?case
  proof (cases "completed t")
    case True
    with Cons.prems show ?thesis by simp
  next
    case False
    note nc = this
    show ?thesis
    proof (cases "queue @ arrivals t")
      case Nil
      note e = this
      show ?thesis
      proof (cases "clock t - timer > interval")
        case True
        with Cons.prems nc e obtain out' where
          w: "watch_loop interval (clock t) ts [] = Some (out', q, rest)"
          and o: "out = Synthetic (clock t) # out'"
          by (auto split: option.splits)
        from Cons.IH [OF w] o True show ?thesis by simp
      next
        case False
        with Cons.prems nc e have
          w: "watch_loop interval timer ts [] = Some (out, q, rest)"
          by simp
        from Cons.IH [OF w] show ?thesis .
      qed
    next
      case (Cons m rest')
      with Cons.prems nc obtain out' where
        w: "watch_loop interval timer ts rest' = Some (out', q, rest)"
        and o: "out = Dequeued m # out'"
        by (auto split: option.splits)
      from Cons.IH [OF w] o show ?thesis by simp
    qed
  qed
qed

lemma late_log_run:
  "watch_queue_until_completed EMPTY_MESSAGE_INTERVAL 0
     [\<lparr>completed = False, arrivals = proxy_to_queue [] [result_element], clock = 1\<rparr>,
      \<lparr>completed = False, arrivals = add_log_to_queue agent_log [], clock = 2\<rparr>,
      \<lparr>completed = True, arrivals = [], clock = 3\<rparr>] []
   = Some [Dequeued result_element,
           Dequeued \<lparr>is_complete = False, logs = [agent_log], result = None\<rparr>]"
  by (simp add: watch_queue_until_completed_def add_log_to_queue_def)

lemma keep_alive_run:
  "watch_queue_until_completed EMPTY_MESSAGE_INTERVAL 0
     [\<lparr>completed = False, arrivals = add_log_to_queue agent_log [], clock = 599\<rparr>,
      \<lparr>completed = False, arrivals = [], clock = 601\<rparr>,
      \<lparr>completed = False, arrivals = [], clock = 1200\<rparr>,
      \<lparr>completed = False, arrivals = [], clock = 1202\<rparr>,
      \<lparr>completed = True, arrivals = [], clock = 1203\<rparr>] []
   = Some [Dequeued \<lparr>is_complete = False, logs = [agent_log], result = None\<rparr>,
           Synthetic 601, Synthetic 1202]"
  by (simp add: watch_queue_until_completed_def add_log_to_queue_def
      EMPTY_MESSAGE_INTERVAL_def)

lemma watch_queue_dequeued:
  assumes "watch_queue_until_completed interval now ticks queue = Some out"
  shows "\<exists>k n. k < n \<and> n \<le> length ticks \<and> completed (ticks ! k) \<and>
           dequeued out = queue @ concat (map arrivals (take n ticks))"
proof -
  from assms obtain out1 q rest where
    w: "watch_loop interval now ticks queue = Some (out1, q, rest)"
    and o: "out = out1 @ map Dequeued (clear_final_messages rest q)"
    by (auto simp: watch_queue_until_completed_def split: option.splits)
  from watch_loop_Some [OF w] obtain k where
    k: "k < length ticks" "completed (ticks ! k)" "rest = drop (Suc k) ticks"
       "dequeued out1 @ q = queue @ concat (map arrivals (take (Suc k) ticks))"
    by blast
  from clear_final_messages_take [of rest q] obtain n where
    n: "n \<le> length rest"
       "clear_final_messages rest q = q @ concat (map arrivals (take n rest))"
    by blast
  have "dequeued out = (dequeued out1 @ q) @ concat (map arrivals (take n rest))"
    using o n(2) by (simp add: dequeued_append dequeued_map_Dequeued)
  also have "\<dots> = queue @ concat (map arrivals (take (Suc k) ticks @ take n (drop (Suc k) ticks)))"
    using k(3,4) by simp
  also have "take (Suc k) ticks @ take n (drop (Suc k) ticks) = take (Suc k + n) ticks"
    by (simp only: take_add)
  finally have d: "dequeued out = queue @ concat (map arrivals (take (Suc k + n) ticks))" .
  have "k < Suc k + n" "Suc k + n \<le> length ticks"
    using k(1,3) n(1) by simp_all
  with k(2) d show ?thesis
    by blast
qed

text \<open>
  Claim C2, as the code has it. The drainer returns exactly when some iteration finds
  \<^verbatim>\<open>is_completed()\<close> true. When it returns, the elements it took from the queue are,
  in order, the initial queue followed by everything the producers put during the first
  \<open>n\<close> iterations, for an \<open>n\<close> beyond the iteration \<open>k\<close> that found the future completed:
  the stream is in FIFO order, nothing put before the completion was observed is left
  out, and the drainer stopped on an empty queue. So a log put before the terminal
  element is yielded before it, and a log put after it is yielded after it.
\<close>

theorem watch_queue_fifo:
  "(watch_queue_until_completed interval now ticks queue \<noteq> None) =
     (\<exists>t \<in> set ticks. completed t)
   \<and> (watch_queue_until_completed interval now ticks queue = Some out \<longrightarrow>
        (\<exists>k n. k < n \<and> n \<le> length ticks \<and> completed (ticks ! k) \<and>
           dequeued out = queue @ concat (map arrivals (take n ticks))))"
proof (intro conjI impI)
  show "(watch_queue_until_completed interval now ticks queue \<noteq> None) =
     (\<exists>t \<in> set ticks. completed t)"
    using watch_loop_None [of interval now ticks queue]
    by (auto simp: watch_queue_until_completed_def split: option.splits)
next
  assume "watch_queue_until_completed interval now ticks queue = Some out"
  then show "\<exists>k n. k < n \<and> n \<le> length ticks \<and> completed (ticks ! k) \<and>
           dequeued out = queue @ concat (map arrivals (take n ticks))"
    by (rule watch_queue_dequeued)
qed

text \<open>
  A drain of three iterations: everything put before the completion was observed has been
  taken from the queue, in order.
\<close>

theorem watch_queue_fifo_witness:
  "\<exists>k n. k < n \<and> n \<le> 3 \<and>
     completed ([\<lparr>completed = False, arrivals = proxy_to_queue [] [result_element], clock = 1\<rparr>,
      \<lparr>completed = False, arrivals = add_log_to_queue agent_log [], clock = 2\<rparr>,
      \<lparr>completed = True, arrivals = [], clock = 3\<rparr>] ! k) \<and>
     dequeued [Dequeued result_element,
           Dequeued \<lparr>is_complete = False, logs = [agent_log], result = None\<rparr>] =
     [] @ concat (map arrivals (take n
       [\<lparr>completed = False, arrivals = proxy_to_queue [] [result_element], clock = 1\<rparr>,
        \<lparr>completed = False, arrivals = add_log_to_queue agent_log [], clock = 2\<rparr>,
        \<lparr>completed = True, arrivals = [], clock = 3\<rparr>]))"
  using watch_queue_fifo [THEN conjunct2, rule_format, OF late_log_run]
  by (simp add: numeral_3_eq_3)

text \<open>
  Claim C2 as written fails: the pump puts the terminal element, the log hook then
  puts a log, and only then is the pump's future complete. The log was put before the
  future completed and is yielded after the terminal element.
\<close>

theorem log_after_terminal_counterexample:
  "watch_queue_until_completed EMPTY_MESSAGE_INTERVAL 0
     [\<lparr>completed = False, arrivals = proxy_to_queue [] [result_element], clock = 1\<rparr>,
      \<lparr>completed = False, arrivals = add_log_to_queue agent_log [], clock = 2\<rparr>,
      \<lparr>completed = True, arrivals = [], clock = 3\<rparr>] []
   = Some [Dequeued result_element,
           Dequeued \<lparr>is_complete = False, logs = [agent_log], result = None\<rparr>]
   \<and> is_complete result_element"
  using late_log_run by (simp add: result_element_def)

text \<open>
  Claim C5, as the code has it. The synthetic element has \<^verbatim>\<open>is_complete\<close> false, no
  logs and no result. The first one is yielded more than the interval after the drainer
  started and each later one more than the interval after the one before (\<open>spaced\<close>),
  so there is at most one for each elapsed interval. One is yielded exactly in an
  iteration whose timed \<^verbatim>\<open>get\<close> finds nothing and in which more than the interval has
  passed since the timer was set, and the timer is set again then; an iteration that takes
  an element from the queue leaves the timer as it is.
\<close>

theorem keep_alive_spacing:
  "element (Synthetic t) = \<lparr>is_complete = False, logs = [], result = None\<rparr>
   \<and> (watch_queue_until_completed interval now ticks queue = Some out \<longrightarrow>
        spaced interval now (synthetic_times out))
   \<and> (\<not> completed tk \<and> queue @ arrivals tk = [] \<longrightarrow>
        watch_loop interval timer (tk # ts) queue =
          (if clock tk - timer > interval then
             (case watch_loop interval (clock tk) ts [] of
                None \<Rightarrow> None
              | Some (out', q, r) \<Rightarrow> Some (Synthetic (clock tk) # out', q, r))
           else watch_loop interval timer ts []))
   \<and> (\<not> completed tk \<and> queue @ arrivals tk = m # rest \<longrightarrow>
        watch_loop interval timer (tk # ts) queue =
          (case watch_loop interval timer ts rest of
             None \<Rightarrow> None
           | Some (out', q, r) \<Rightarrow> Some (Dequeued m # out', q, r)))"
proof (intro conjI impI)
  show "element (Synthetic t) = \<lparr>is_complete = False, logs = [], result = None\<rparr>"
    by (simp add: element_def)
next
  assume "watch_queue_until_completed interval now ticks queue = Some out"
  then obtain out1 q rest where
    w: "watch_loop interval now ticks queue = Some (out1, q, rest)"
    and o: "out = out1 @ map Dequeued (clear_final_messages rest q)"
    by (auto simp: watch_queue_until_completed_def split: option.splits)
  from watch_loop_spaced [OF w] o
  show "spaced interval now (synthetic_times out)"
    by (simp add: synthetic_times_append synthetic_times_map_Dequeued)
next
  assume "\<not> completed tk \<and> queue @ arrivals tk = []"
  then show "watch_loop interval timer (tk # ts) queue =
          (if clock tk - timer > interval then
             (case watch_loop interval (clock tk) ts [] of
                None \<Rightarrow> None
              | Some (out', q, r) \<Rightarrow> Some (Synthetic (clock tk) # out', q, r))
           else watch_loop interval timer ts [])"
    by simp
next
  assume "\<not> completed tk \<and> queue @ arrivals tk = m # rest"
  then show "watch_loop interval timer (tk # ts) queue =
          (case watch_loop interval timer ts rest of
             None \<Rightarrow> None
           | Some (out', q, r) \<Rightarrow> Some (Dequeued m # out', q, r))"
    by simp
qed

text \<open>
  A drain that is idle from 599 on: the synthetic elements at 601 and 1202 are more than
  the interval apart, and the first is more than the interval after the start.
\<close>

theorem keep_alive_spacing_witness:
  "spaced EMPTY_MESSAGE_INTERVAL 0
     (synthetic_times [Dequeued \<lparr>is_complete = False, logs = [agent_log], result = None\<rparr>,
           Synthetic 601, Synthetic 1202])"
  using keep_alive_spacing [THEN conjunct2, THEN conjunct1, rule_format, OF keep_alive_run]
  by simp

text \<open>
  Claim C5 as written fails: the timer is not reset by queue activity. With the
  drainer started at 0, an element taken from the queue at 599 and an empty poll at 601,
  a synthetic element is yielded two seconds after the last activity.
\<close>

theorem keep_alive_after_activity_counterexample:
  "watch_queue_until_completed EMPTY_MESSAGE_INTERVAL 0
     [\<lparr>completed = False, arrivals = add_log_to_queue agent_log [], clock = 599\<rparr>,
      \<lparr>completed = False, arrivals = [], clock = 601\<rparr>,
      \<lparr>completed = True, arrivals = [], clock = 602\<rparr>] []
   = Some [Dequeued \<lparr>is_complete = False, logs = [agent_log], result = None\<rparr>,
           Synthetic 601]
   \<and> (601::real) - 599 < EMPTY_MESSAGE_INTERVAL"
  by (simp add: watch_queue_until_completed_def add_log_to_queue_def
      EMPTY_MESSAGE_INTERVAL_def)

section \<open>Properties of the task runner\<close>





text \<open>
  Claim C3. After the drain has returned, the pump's exception decides how the run
  ends. A \<^verbatim>\<open>grpc.RpcError\<close> is raised again as a \<^verbatim>\<open>GRPCException\<close> with its text and
  its own status code, and nothing more is yielded. An \<^verbatim>\<open>AgentError\<close> ends the run with
  status \<^verbatim>\<open>ABORTED\<close> and the agent's detail. Any other exception ends it with status
  \<^verbatim>\<open>UNKNOWN\<close>, after each line of its formatted stack trace has been yielded as an element
  with one \<^verbatim>\<open>ERROR\<close> log. (The lines of the trace are yielded for an \<^verbatim>\<open>AgentError\<close> as
  well, before the \<^verbatim>\<open>ABORTED\<close> status.) Without an exception the body returns.
\<close>

theorem pump_outcome_classification:
  "watch_queue_until_completed interval now ticks queue = Some out \<longrightarrow>
     dispatch interval format_exception now ticks queue None =
       Some (map element out, Inr ())
   \<and> dispatch interval format_exception now ticks queue (Some (RpcError code s)) =
       Some (map element out, Inl (GRPCException s code))
   \<and> dispatch interval format_exception now ticks queue (Some (AgentError detail)) =
       Some (map element out @
             concat (map (\<lambda>line. servicer_log line ERROR BRIDGE)
                       (format_exception (AgentError detail))),
             Inl (GRPCException detail ABORTED))
   \<and> ((\<forall>c s. e \<noteq> RpcError c s) \<and> (\<forall>d. e \<noteq> AgentError d) \<longrightarrow>
       dispatch interval format_exception now ticks queue (Some e) =
         Some (map element out @
               concat (map (\<lambda>line. servicer_log line ERROR BRIDGE) (format_exception e)),
               Inl (GRPCException (''An unexpected error occurred: '' @ str_of e @ ''.'')
                      UNKNOWN)))"
  by (cases e) (simp_all add: dispatch_def check_pump_exception_def)

text \<open>
  A pump that ends with an exception that is neither an RPC error nor an agent error: the
  two lines of the trace follow the drained elements, and the run ends with UNKNOWN.
\<close>

theorem pump_outcome_classification_witness:
  "dispatch EMPTY_MESSAGE_INTERVAL traceback_lines 0
     [\<lparr>completed = False, arrivals = proxy_to_queue [] [result_element], clock = 1\<rparr>,
      \<lparr>completed = False, arrivals = add_log_to_queue agent_log [], clock = 2\<rparr>,
      \<lparr>completed = True, arrivals = [], clock = 3\<rparr>] []
     (Some (OtherException ''boom''))
   = Some ([result_element,
            \<lparr>is_complete = False, logs = [agent_log], result = None\<rparr>,
            \<lparr>is_complete = False,
              logs = [\<lparr>message = ''Traceback (most recent call last):'', level = ERROR,
                       source = BRIDGE\<rparr>],
              result = None\<rparr>,
            \<lparr>is_complete = False,
              logs = [\<lparr>message = ''boom'', level = ERROR, source = BRIDGE\<rparr>],
              result = None\<rparr>],
           Inl (GRPCException ''An unexpected error occurred: boom.'' UNKNOWN))"
proof -
  have other: "(\<forall>c s. OtherException ''boom'' \<noteq> RpcError c s) \<and>
      (\<forall>d. OtherException ''boom'' \<noteq> AgentError d)"
    by simp
  from pump_outcome_classification [where e = "OtherException ''boom''"
      and format_exception = traceback_lines and code = UNAVAILABLE and s = "[]"
      and detail = "[]", rule_format, OF late_log_run,
      THEN conjunct2, THEN conjunct2, THEN conjunct2, rule_format, OF other]
  show ?thesis
    by (simp add: element_def servicer_log_def traceback_lines_def)
qed

section \<open>Properties of the stream of one request\<close>


















section \<open>Properties of cancellation\<close>

lemma terminate_idem: "map_option terminate (map_option terminate x) = map_option terminate x"
  by (cases x) (simp_all add: terminate_def)

lemma invoke_callbacks_entry:
  "invoke_callbacks f tasks k = None \<or> invoke_callbacks f tasks k = tasks k"
proof -
  have "fold (\<lambda>task_id ts. ts(task_id := None)) ids tasks k = None \<or>
        fold (\<lambda>task_id ts. ts(task_id := None)) ids tasks k = tasks k" for ids
  proof (induction ids arbitrary: tasks)
    case Nil
    show ?case by simp
  next
    case (Cons a ids)
    from Cons [of "tasks(a := None)"] show ?case
      by (cases "k = a") auto
  qed
  then show ?thesis by (simp add: invoke_callbacks_def)
qed

lemma publish_entry:
  "publish k t tasks k = None \<or> publish k t tasks k = Some t"
  by (simp add: publish_def)

lemma publish_same: "tasks k = None \<or> tasks k = Some t \<Longrightarrow> publish k t tasks = tasks"
  by (auto simp: publish_def fun_eq_iff)

lemma cancel_and_terminate_result:
  assumes "cancel_and_terminate task_id self f tasks = (f1, self2, tasks2)"
  shows "state f1 \<noteq> Pending" and "future self2 = Some f1"
    and "agent self2 = map_option terminate (agent self)"
    and "tasks2 task_id = None \<or> tasks2 task_id = Some self2"
proof -
  from assms have f1: "f1 = fst (future_cancel f)"
    and s2: "self2 = self\<lparr>future := Some f1, agent := map_option terminate (agent self)\<rparr>"
    by (auto simp: cancel_and_terminate_def Let_def)
  from assms obtain tasks1 where t2: "tasks2 = publish task_id self2 tasks1"
    by (auto simp: cancel_and_terminate_def Let_def)
  show "state f1 \<noteq> Pending"
    using f1 by (simp add: future_cancel_def)
  show "future self2 = Some f1" and "agent self2 = map_option terminate (agent self)"
    using s2 by simp_all
  show "tasks2 task_id = None \<or> tasks2 task_id = Some self2"
    unfolding t2 by (rule publish_entry)
qed

lemma cancel_and_terminate_settled:
  assumes "settled self" and "future self = Some f"
    and "tasks task_id = None \<or> tasks task_id = Some self"
  shows "cancel_and_terminate task_id self f tasks = (f, self, tasks)"
proof -
  from assms(1,2) have st: "state f = Cancelled \<or> (\<exists>e. state f = Finished e)"
    and ag: "agent self = map_option terminate (agent self)"
    by (auto simp: settled_def split: future_state.splits)
  have fc: "future_cancel f = (f, False)"
    using st by (auto simp: future_cancel_def)
  have s12: "self\<lparr>future := Some f, agent := map_option terminate (agent self)\<rparr> = self"
    using assms(2) ag by (cases self) auto
  show ?thesis
    using fc s12 publish_same [of tasks task_id self, OF assms(3)]
    by (simp add: cancel_and_terminate_def Let_def)
qed

lemma Task_cancel_settled:
  assumes "settled self" and "tasks task_id = None \<or> tasks task_id = Some self"
  shows "\<exists>r. Task_cancel sched task_id self tasks = Some (r, self, tasks)"
proof (cases "future self")
  case None
  then show ?thesis by simp
next
  case (Some f)
  with assms(1) have st: "state f = Cancelled \<or> (\<exists>e. state f = Finished e)"
    by (auto simp: settled_def split: future_state.splits)
  from cancel_and_terminate_settled [of self f tasks task_id, OF assms(1) Some assms(2)] st Some
  show ?thesis by auto
qed

lemma invoke_publish_entry:
  "invoke_callbacks f (publish k t tasks) k = None \<or>
   invoke_callbacks f (publish k t tasks) k = Some t"
  using invoke_callbacks_entry [of f "publish k t tasks" k] publish_entry [of k t tasks]
  by auto

lemma Task_cancel_result:
  "Task_cancel sched task_id self tasks = Some (r, self', tasks') \<Longrightarrow>
   tasks task_id = None \<or> tasks task_id = Some self \<Longrightarrow>
   settled self' \<and> (tasks' task_id = None \<or> tasks' task_id = Some self')"
proof (induction sched arbitrary: self tasks)
  case Nil
  show ?case
  proof (cases "future self")
    case None
    with Nil show ?thesis by (auto simp: settled_def)
  next
    case (Some f)
    obtain f1 self2 tasks2 where
      ct: "cancel_and_terminate task_id self f tasks = (f1, self2, tasks2)"
      by (cases "cancel_and_terminate task_id self f tasks") auto
    note c = cancel_and_terminate_result [OF ct]
    from Nil Some ct c(1) have "self' = self2 \<and> tasks' = tasks2 \<and>
        (state f1 = Cancelled \<or> (\<exists>x. state f1 = Finished x))"
      by (auto split: future_state.splits)
    with c show ?thesis
      by (auto simp: settled_def terminate_idem)
  qed
next
  case (Cons w rest)
  show ?case
  proof (cases "future self")
    case None
    with Cons.prems show ?thesis by (auto simp: settled_def)
  next
    case (Some f)
    obtain f1 self2 tasks2 where
      ct: "cancel_and_terminate task_id self f tasks = (f1, self2, tasks2)"
      by (cases "cancel_and_terminate task_id self f tasks") auto
    note c = cancel_and_terminate_result [OF ct]
    show ?thesis
    proof (cases "state f1")
      case Pending
      with c(1) show ?thesis by simp
    next
      case Cancelled
      with Cons.prems Some ct have "self' = self2 \<and> tasks' = tasks2" by simp
      with c Cancelled show ?thesis
        by (auto simp: settled_def terminate_idem)
    next
      case (Finished x)
      with Cons.prems Some ct have "self' = self2 \<and> tasks' = tasks2" by simp
      with c Finished show ?thesis
        by (auto simp: settled_def terminate_idem)
    next
      case Running
      show ?thesis
      proof (cases w)
        case StillRunning
        with Cons.prems Some ct Running
        have "Task_cancel rest task_id self2 tasks2 = Some (r, self', tasks')" by simp
        from Cons.IH [OF this c(4)] show ?thesis .
      next
        case (Done x)
        let ?f3 = "f1\<lparr>state := Finished x\<rparr>"
        let ?self3 = "self2\<lparr>future := Some ?f3\<rparr>"
        from Cons.prems Some ct Running Done
        have "self' = ?self3 \<and> tasks' = invoke_callbacks ?f3 (publish task_id ?self3 tasks2)"
          by (auto simp: Let_def)
        with c show ?thesis
          using invoke_publish_entry [of ?f3 task_id ?self3 tasks2]
          by (auto simp: settled_def terminate_idem)
      qed
    qed
  qed
qed

lemma submitted_task:
  "background_tasks submitted ''t1'' =
     Some \<lparr>request = example_request,
           future = Some \<lparr>state = Running, done_callbacks = [''t1'']\<rparr>, agent = None\<rparr>"
  by (simp add: submitted_def Submit_def Let_def new_task_def)

lemma submitted_cancel:
  "Cancel [StillRunning, Done None] submitted ''t1'' =
     Some (Inr CancelResponse, \<lparr>background_tasks = Map.empty\<rparr>)"
  by (simp add: Cancel_def submitted_def Submit_def Let_def new_task_def
      cancel_and_terminate_def future_cancel_def publish_def invoke_callbacks_def)

text \<open>
  Claim C8. \<^verbatim>\<open>Cancel\<close> on an id that is not registered returns the empty response and
  changes nothing; on a registered id its effect is that of the task's \<^verbatim>\<open>cancel\<close>.
  Whenever a first \<^verbatim>\<open>Cancel\<close> has returned (with a response, or with the
  \<^verbatim>\<open>CancelledError\<close> of a future that was still pending), a second \<^verbatim>\<open>Cancel\<close> with the
  same id returns at once, whatever the workers do, and leaves the registry and the task
  exactly as the first one left them: either the completion callback has removed the
  task, or its future is cancelled or finished and its agent already terminated. This
  covers a task that had reached a terminal state before the first call.
\<close>

theorem Cancel_idempotent:
  "(background_tasks self task_id = None \<longrightarrow>
      Cancel sched self task_id = Some (Inr CancelResponse, self))
   \<and> (background_tasks self task_id = Some task \<longrightarrow>
      Cancel sched self task_id =
        (case Task_cancel sched task_id task (background_tasks self) of
           None \<Rightarrow> None
         | Some (r, task', tasks') \<Rightarrow>
             Some (case r of Inl e \<Rightarrow> Inl e | Inr u \<Rightarrow> Inr CancelResponse,
                   self\<lparr>background_tasks := tasks'\<rparr>)))
   \<and> (Cancel sched self task_id = Some (r, self') \<longrightarrow>
      (\<exists>r'. Cancel sched' self' task_id = Some (r', self')))"
proof (intro conjI impI)
  assume "background_tasks self task_id = None"
  then show "Cancel sched self task_id = Some (Inr CancelResponse, self)"
    by (simp add: Cancel_def)
next
  assume "background_tasks self task_id = Some task"
  then show "Cancel sched self task_id =
        (case Task_cancel sched task_id task (background_tasks self) of
           None \<Rightarrow> None
         | Some (r, task', tasks') \<Rightarrow>
             Some (case r of Inl e \<Rightarrow> Inl e | Inr u \<Rightarrow> Inr CancelResponse,
                   self\<lparr>background_tasks := tasks'\<rparr>))"
    by (simp add: Cancel_def split: option.splits prod.splits sum.splits)
next
  assume c: "Cancel sched self task_id = Some (r, self')"
  show "\<exists>r'. Cancel sched' self' task_id = Some (r', self')"
  proof (cases "background_tasks self task_id")
    case None
    with c have "self' = self" by (simp add: Cancel_def)
    with None show ?thesis by (simp add: Cancel_def)
  next
    case (Some task)
    with c obtain r0 task' tasks' where
      t: "Task_cancel sched task_id task (background_tasks self) = Some (r0, task', tasks')"
      and s': "self' = self\<lparr>background_tasks := tasks'\<rparr>"
      by (auto simp: Cancel_def split: option.splits prod.splits sum.splits)
    from Task_cancel_result [OF t] Some
    have st: "settled task'" and e: "tasks' task_id = None \<or> tasks' task_id = Some task'"
      by simp_all
    show ?thesis
    proof (cases "tasks' task_id")
      case None
      with s' show ?thesis by (simp add: Cancel_def)
    next
      case (Some t')
      with e have t': "t' = task'" by simp
      from Task_cancel_settled [of task' tasks' task_id sched', OF st e] obtain r1 where
        "Task_cancel sched' task_id task' tasks' = Some (r1, task', tasks')" ..
      with Some t' s' show ?thesis
        by (cases r1) (simp_all add: Cancel_def)
    qed
  qed
qed

text \<open>
  A submitted task whose pipeline is running and ends during the second wait: the first
  call removes it from the registry, the second call changes nothing.
\<close>

theorem Cancel_idempotent_witness:
  "Cancel [StillRunning, Done None] submitted ''t1'' =
     Some (Inr CancelResponse, \<lparr>background_tasks = Map.empty\<rparr>)
   \<and> (\<exists>r'. Cancel [] \<lparr>background_tasks = Map.empty\<rparr> ''t1'' =
          Some (r', \<lparr>background_tasks = Map.empty\<rparr>))"
  using Cancel_idempotent [where sched' = "[]", THEN conjunct2, THEN conjunct2, rule_format,
      OF submitted_cancel] submitted_cancel
  by simp


section \<open>Properties of the registry\<close>

lemma with_future_publish:
  "with_future tasks \<Longrightarrow> future t \<noteq> None \<Longrightarrow> with_future (publish k t tasks)"
  by (auto simp: with_future_def publish_def)

lemma with_future_invoke:
  "with_future tasks \<Longrightarrow> with_future (invoke_callbacks f tasks)"
  unfolding with_future_def
  by (metis invoke_callbacks_entry option.distinct(1))

lemma with_future_cancel_and_terminate:
  assumes "cancel_and_terminate task_id self f tasks = (f1, self2, tasks2)"
    and "with_future tasks"
  shows "with_future tasks2"
proof -
  let ?f1 = "fst (future_cancel f)"
  let ?self1 = "self\<lparr>future := Some ?f1\<rparr>"
  let ?tasks1 = "if snd (future_cancel f)
                 then invoke_callbacks ?f1 (publish task_id ?self1 tasks) else tasks"
  have "with_future ?tasks1"
    using assms(2) by (simp add: with_future_invoke with_future_publish)
  moreover have "tasks2 = publish task_id self2 ?tasks1"
    using assms(1) by (auto simp: cancel_and_terminate_def Let_def)
  moreover have "future self2 \<noteq> None"
    using cancel_and_terminate_result(2) [OF assms(1)] by simp
  ultimately show ?thesis
    by (simp add: with_future_publish)
qed

lemma with_future_Task_cancel:
  "Task_cancel sched task_id self tasks = Some (r, self', tasks') \<Longrightarrow>
   with_future tasks \<Longrightarrow>
   with_future tasks' \<and> ((\<exists>m. r = Inl (AttributeError m)) \<longrightarrow> future self = None)"
proof (induction sched arbitrary: self tasks)
  case Nil
  show ?case
  proof (cases "future self")
    case None
    with Nil show ?thesis by auto
  next
    case (Some f)
    obtain f1 self2 tasks2 where
      ct: "cancel_and_terminate task_id self f tasks = (f1, self2, tasks2)"
      by (cases "cancel_and_terminate task_id self f tasks") auto
    from Nil Some ct show ?thesis
      using with_future_cancel_and_terminate [OF ct Nil.prems(2)]
      by (auto split: future_state.splits)
  qed
next
  case (Cons w rest)
  show ?case
  proof (cases "future self")
    case None
    with Cons.prems show ?thesis by auto
  next
    case (Some f)
    obtain f1 self2 tasks2 where
      ct: "cancel_and_terminate task_id self f tasks = (f1, self2, tasks2)"
      by (cases "cancel_and_terminate task_id self f tasks") auto
    note c = cancel_and_terminate_result [OF ct]
    note wf = with_future_cancel_and_terminate [OF ct Cons.prems(2)]
    have running: ?thesis if run: "state f1 = Running \<or> state f1 = Pending"
    proof (cases w)
      case StillRunning
      with Cons.prems Some ct run
      have "Task_cancel rest task_id self2 tasks2 = Some (r, self', tasks')" by auto
      from Cons.IH [OF this wf] c(2) show ?thesis by simp
    next
      case (Done x)
      let ?f3 = "f1\<lparr>state := Finished x\<rparr>"
      let ?self3 = "self2\<lparr>future := Some ?f3\<rparr>"
      from Cons.prems Some ct run Done
      have "r = Inr () \<and> tasks' = invoke_callbacks ?f3 (publish task_id ?self3 tasks2)"
        by (auto simp: Let_def)
      with wf show ?thesis
        by (simp add: with_future_invoke with_future_publish)
    qed
    show ?thesis
    proof (cases "state f1")
      case Pending
      then show ?thesis using running by simp
    next
      case Running
      then show ?thesis using running by simp
    next
      case Cancelled
      with Cons.prems Some ct wf show ?thesis by auto
    next
      case (Finished x)
      with Cons.prems Some ct wf show ?thesis by auto
    qed
  qed
qed

lemma with_future_Cancel:
  "Cancel sched s task_id = Some (r, s') \<Longrightarrow> with_future (background_tasks s) \<Longrightarrow>
   with_future (background_tasks s') \<and> (\<forall>m. r \<noteq> Inl (AttributeError m))"
proof (cases "background_tasks s task_id")
  case None
  assume "Cancel sched s task_id = Some (r, s')" "with_future (background_tasks s)"
  with None show ?thesis by (auto simp: Cancel_def)
next
  case (Some task)
  assume c: "Cancel sched s task_id = Some (r, s')" and w: "with_future (background_tasks s)"
  from c Some obtain r0 task' tasks' where
    t: "Task_cancel sched task_id task (background_tasks s) = Some (r0, task', tasks')"
    and s': "s' = s\<lparr>background_tasks := tasks'\<rparr>"
    and r: "r = (case r0 of Inl e \<Rightarrow> Inl e | Inr u \<Rightarrow> Inr CancelResponse)"
    by (auto simp: Cancel_def split: option.splits prod.splits sum.splits)
  from with_future_Task_cancel [OF t w] have
    w': "with_future tasks'" and a: "(\<exists>m. r0 = Inl (AttributeError m)) \<longrightarrow> future task = None"
    by simp_all
  from w Some have "future task \<noteq> None" by (auto simp: with_future_def)
  with a r have "\<forall>m. r \<noteq> Inl (AttributeError m)"
    by (cases r0) auto
  with w' s' show ?thesis by simp
qed

lemma reachable_with_future: "reachable s \<Longrightarrow> with_future (background_tasks s)"
proof (induction rule: reachable.induct)
  case initial
  show ?case by (simp add: with_future_def)
next
  case (submit s task_id progress request_function)
  then show ?case
    by (cases progress) (auto simp: Submit_def Let_def with_future_def new_task_def)
next
  case (cancel s sched task_id r s')
  from with_future_Cancel [OF cancel.hyps(2) cancel.IH] show ?case by simp
next
  case (starts s task_id)
  then show ?case
    by (auto simp: worker_starts_def with_future_def split: option.splits)
next
  case (acquires s task_id acquired)
  then show ?case
    by (auto simp: worker_acquires_def with_future_def split: option.splits)
next
  case (finishes s task_id e)
  show ?case
  proof (cases "background_tasks s task_id")
    case None
    with finishes show ?thesis by (simp add: worker_finishes_def)
  next
    case (Some task)
    show ?thesis
    proof (cases "future task")
      case None
      with Some finishes show ?thesis by (simp add: worker_finishes_def)
    next
      case (Some f)
      have "with_future ((background_tasks s)
              (task_id \<mapsto> task\<lparr>future := Some (f\<lparr>state := Finished e\<rparr>)\<rparr>))"
        using finishes.IH by (auto simp: with_future_def)
      then show ?thesis
        using \<open>background_tasks s task_id = Some task\<close> Some finishes.IH
        by (simp add: worker_finishes_def with_future_invoke)
    qed
  qed
qed

text \<open>
  Claim C10. In every state the servicer can reach, each registered task has a future:
  \<^verbatim>\<open>Submit\<close> stores the task with its future already assigned, and neither
  \<^verbatim>\<open>Cancel\<close> nor the worker of a task clears the field. So \<^verbatim>\<open>Task.cancel\<close> on a
  registered task, as \<^verbatim>\<open>Cancel\<close> and \<^verbatim>\<open>cancel_tasks\<close> call it, never raises the
  \<^verbatim>\<open>AttributeError\<close> of a missing future. The task that \<^verbatim>\<open>Run\<close> makes has no future and
  is never stored.
\<close>

theorem registered_task_has_future:
  "(reachable s \<and> background_tasks s task_id = Some task \<longrightarrow> future task \<noteq> None)
   \<and> (reachable s \<and> Cancel sched s task_id = Some (r, s') \<longrightarrow>
        (\<forall>m. r \<noteq> Inl (AttributeError m)))
   \<and> (reachable s \<and> background_tasks s task_id = Some task \<and>
       Task_cancel sched task_id task (background_tasks s) = Some (r0, task', tasks')
        \<longrightarrow> (\<forall>m. r0 \<noteq> Inl (AttributeError m)))
   \<and> (background_tasks (snd (Submit task_id progress s0 request_function)) task_id = Some task
        \<longrightarrow> future task \<noteq> None)
   \<and> future (new_task request_function) = None"
proof (intro conjI impI)
  assume a: "reachable s \<and> background_tasks s task_id = Some task \<and>
       Task_cancel sched task_id task (background_tasks s) = Some (r0, task', tasks')"
  then have w: "with_future (background_tasks s)"
    using reachable_with_future [of s] by simp
  with a have "future task \<noteq> None" by (auto simp: with_future_def)
  moreover from a w have "(\<exists>m. r0 = Inl (AttributeError m)) \<longrightarrow> future task = None"
    using with_future_Task_cancel [of sched task_id task "background_tasks s" r0 task' tasks']
    by simp
  ultimately show "\<forall>m. r0 \<noteq> Inl (AttributeError m)" by blast
next
  assume "reachable s \<and> background_tasks s task_id = Some task"
  then show "future task \<noteq> None"
    using reachable_with_future [of s] by (auto simp: with_future_def)
next
  assume "reachable s \<and> Cancel sched s task_id = Some (r, s')"
  then show "\<forall>m. r \<noteq> Inl (AttributeError m)"
    using reachable_with_future [of s] with_future_Cancel [of sched s task_id r s'] by simp
next
  assume "background_tasks (snd (Submit task_id progress s0 request_function)) task_id = Some task"
  then show "future task \<noteq> None"
    by (cases progress) (auto simp: Submit_def Let_def new_task_def)
next
  show "future (new_task request_function) = None"
    by (simp add: new_task_def)
qed

text \<open>
  The state after one submission is reachable, and the task it registers has a future.
\<close>

theorem registered_task_has_future_witness:
  "reachable submitted
   \<and> background_tasks submitted ''t1'' =
     Some \<lparr>request = example_request,
           future = Some \<lparr>state = Running, done_callbacks = [''t1'']\<rparr>, agent = None\<rparr>
   \<and> future \<lparr>request = example_request,
           future = Some \<lparr>state = Running, done_callbacks = [''t1'']\<rparr>, agent = None\<rparr>
       \<noteq> None"
proof -
  have r: "reachable submitted"
    unfolding submitted_def by (rule reachable.submit [OF reachable.initial])
  from registered_task_has_future [THEN conjunct1, rule_format, OF conjI, OF r submitted_task]
  show ?thesis
    using r submitted_task by simp
qed

end
